theory Spec2Isabelle
  imports Main "HOL-Library.Product_Lexorder"
begin

section \<open>The drone path finder: grid model\<close>

text \<open>
  A shallow embedding of \<^verbatim>\<open>drone_path_finder.py\<close>. A grid is a list of rows, a row a
  list of Python strings (the presets and the row-by-row input give one-character
  strings). A position is a pair of Python integers \<open>(row, col)\<close>. Python exceptions
  are values of \<open>error\<close>; a method that may raise returns \<open>error + 'a\<close>.
\<close>

type_synonym cell = "int \<times> int"

type_synonym grid_t = "string list list"

datatype error = IndexError | KeyError | TypeError

record DronePathfinder =
  grid :: grid_t
  rows :: int
  cols :: int
  start :: "cell option"
  goal :: "cell option"

text \<open>\<^verbatim>\<open>self.directions\<close>: north, south, west, east.\<close>

definition directions :: "(int \<times> int) list" where
  "directions = [(-1, 0), (1, 0), (0, -1), (0, 1)]"

text \<open>
  \<^verbatim>\<open>_find_pos\<close>: two nested \<^verbatim>\<open>for\<close> loops over \<^verbatim>\<open>range(rows)\<close> and
  \<^verbatim>\<open>range(cols)\<close>; the first match in row-major order is returned, and Python's
  implicit \<^verbatim>\<open>None\<close> when there is none. \<^verbatim>\<open>grid[i][j]\<close> raises IndexError on a row
  shorter than \<^verbatim>\<open>cols\<close>.
\<close>

fun find_col :: "string list \<Rightarrow> string \<Rightarrow> nat list \<Rightarrow> error + nat option" where
  "find_col row symbol [] = Inr None"
| "find_col row symbol (j # js) =
     (if length row \<le> j then Inl IndexError
      else if row ! j = symbol then Inr (Some j)
      else find_col row symbol js)"

fun find_row :: "grid_t \<Rightarrow> string \<Rightarrow> nat list \<Rightarrow> nat list \<Rightarrow> error + cell option" where
  "find_row gr symbol [] js = Inr None"
| "find_row gr symbol (i # is) js =
     (if length gr \<le> i then Inl IndexError
      else case find_col (gr ! i) symbol js of
        Inl err \<Rightarrow> Inl err
      | Inr (Some j) \<Rightarrow> Inr (Some (int i, int j))
      | Inr None \<Rightarrow> find_row gr symbol is js)"

definition find_pos :: "grid_t \<Rightarrow> int \<Rightarrow> int \<Rightarrow> string \<Rightarrow> error + cell option" where
  "find_pos gr rs cs symbol = find_row gr symbol [0..<nat rs] [0..<nat cs]"

text \<open>\<^verbatim>\<open>__init__\<close>: \<^verbatim>\<open>len(grid[0])\<close> raises IndexError on the empty grid.\<close>

definition init :: "grid_t \<Rightarrow> error + DronePathfinder" where
  "init gr =
     (case gr of
        [] \<Rightarrow> Inl IndexError
      | row0 # _ \<Rightarrow>
          (let rs = int (length gr); cs = int (length row0) in
           case find_pos gr rs cs ''S'' of
             Inl err \<Rightarrow> Inl err
           | Inr s \<Rightarrow>
               (case find_pos gr rs cs ''G'' of
                  Inl err \<Rightarrow> Inl err
                | Inr g \<Rightarrow>
                    Inr \<lparr>grid = gr, rows = rs, cols = cs, start = s, goal = g\<rparr>)))"

text \<open>
  \<^verbatim>\<open>_is_valid\<close>: the bounds are tested first, so Python's negative indexing never
  happens; \<^verbatim>\<open>grid[row][col]\<close> still raises IndexError where the grid is smaller than
  \<^verbatim>\<open>rows\<close> by \<^verbatim>\<open>cols\<close>.
\<close>

definition is_valid :: "DronePathfinder \<Rightarrow> int \<Rightarrow> int \<Rightarrow> error + bool" where
  "is_valid e r c =
     (if 0 \<le> r \<and> r < rows e \<and> 0 \<le> c \<and> c < cols e then
        (if nat r < length (grid e) then
           (if nat c < length (grid e ! nat r)
            then Inr (grid e ! nat r ! nat c \<noteq> ''X'')
            else Inl IndexError)
         else Inl IndexError)
      else Inr False)"

text \<open>\<^verbatim>\<open>_get_neighbors\<close>: the list comprehension over the four directions, in order.\<close>

fun neighbors_of :: "DronePathfinder \<Rightarrow> int \<Rightarrow> int \<Rightarrow> (int \<times> int) list \<Rightarrow> error + cell list" where
  "neighbors_of e r c [] = Inr []"
| "neighbors_of e r c ((dr, dc) # ds) =
     (case is_valid e (r + dr) (c + dc) of
        Inl err \<Rightarrow> Inl err
      | Inr ok \<Rightarrow>
          (case neighbors_of e r c ds of
             Inl err \<Rightarrow> Inl err
           | Inr ns \<Rightarrow> Inr (if ok then (r + dr, c + dc) # ns else ns)))"

definition get_neighbors :: "DronePathfinder \<Rightarrow> cell \<Rightarrow> error + cell list" where
  "get_neighbors e pos = (case pos of (r, c) \<Rightarrow> neighbors_of e r c directions)"

definition manhattan_dist :: "cell \<Rightarrow> cell \<Rightarrow> int" where
  "manhattan_dist pos1 pos2 = \<bar>fst pos1 - fst pos2\<bar> + \<bar>snd pos1 - snd pos2\<bar>"

text \<open>
  \<^verbatim>\<open>_build_path\<close>: the \<^verbatim>\<open>while\<close> loop follows the predecessor map and does not end
  on a map with a cycle, so it is a partial function: \<open>None\<close> is "does not return".
\<close>

partial_function (option) build_path_loop ::
  "(cell \<rightharpoonup> cell) \<Rightarrow> cell \<Rightarrow> cell list \<Rightarrow> cell list option" where
  "build_path_loop came_from current path =
     (case came_from current of
        None \<Rightarrow> Some path
      | Some prev \<Rightarrow> build_path_loop came_from prev (path @ [prev]))"

declare build_path_loop.simps [code]

definition build_path :: "(cell \<rightharpoonup> cell) \<Rightarrow> cell \<Rightarrow> cell list option" where
  "build_path came_from current = map_option rev (build_path_loop came_from current [current])"

section \<open>The priority queue\<close>

text \<open>
  \<^verbatim>\<open>heapq\<close> is Python's library, modelled by its contract. The model keeps the
  entries in the order they were pushed; \<^verbatim>\<open>heappop\<close> removes and returns the least
  entry. Entries are tuples \<open>(key, (row, col))\<close>, which Python compares
  lexicographically (the order of \<open>Product_Lexorder\<close>), a total order in which two
  entries that compare equal are the same value: which of them is removed cannot be
  observed, and what the program pops depends on the entries only, not on the array
  layout \<^verbatim>\<open>heapq\<close> keeps them in.
\<close>

type_synonym entry = "int \<times> cell"

definition heappush :: "entry list \<Rightarrow> entry \<Rightarrow> entry list" where
  "heappush heap item = heap @ [item]"

definition heappop :: "entry list \<Rightarrow> entry \<times> entry list" where
  "heappop heap = (let item = Min (set heap) in (item, remove1 item heap))"

section \<open>The validator\<close>

text \<open>
  Python's \<^verbatim>\<open>cell not in 'X.SG'\<close> on strings is the substring test: \<open>str_in s t\<close> is
  \<^verbatim>\<open>s in t\<close>.
\<close>

fun str_in :: "string \<Rightarrow> string \<Rightarrow> bool" where
  "str_in s [] = (s = [])"
| "str_in s (c # t) = (take (length s) (c # t) = s \<or> str_in s t)"

text \<open>The inner loop of \<^verbatim>\<open>validate_grid\<close> over the cells of one row.\<close>

fun scan_row :: "string list \<Rightarrow> nat \<Rightarrow> nat \<Rightarrow> string + nat \<times> nat" where
  "scan_row [] s_count g_count = Inr (s_count, g_count)"
| "scan_row (cell # rest) s_count g_count =
     (if \<not> str_in cell ''X.SG'' then Inl (''Invalid symbol: '' @ cell)
      else if cell = ''S'' then scan_row rest (s_count + 1) g_count
      else if cell = ''G'' then scan_row rest s_count (g_count + 1)
      else scan_row rest s_count g_count)"

text \<open>The outer loop over the rows.\<close>

fun scan_rows :: "grid_t \<Rightarrow> nat \<Rightarrow> nat \<Rightarrow> nat \<Rightarrow> string + nat \<times> nat" where
  "scan_rows [] n s_count g_count = Inr (s_count, g_count)"
| "scan_rows (row # rest) n s_count g_count =
     (if length row \<noteq> n then Inl ''Unequal row lengths''
      else case scan_row row s_count g_count of
        Inl msg \<Rightarrow> Inl msg
      | Inr (s', g') \<Rightarrow> scan_rows rest n s' g')"

definition validate_grid :: "grid_t \<Rightarrow> bool \<times> string" where
  "validate_grid gr =
     (if gr = [] \<or> hd gr = [] then (False, ''Empty grid'')
      else case scan_rows gr (length (hd gr)) 0 0 of
        Inl msg \<Rightarrow> (False, msg)
      | Inr (s_count, g_count) \<Rightarrow>
          if s_count \<noteq> 1 then (False, ''Need exactly one S'')
          else if g_count \<noteq> 1 then (False, ''Need exactly one G'')
          else (True, ''Valid''))"

section \<open>The five searches\<close>

text \<open>
  Each \<^verbatim>\<open>while\<close> loop is a recursive function on the loop's variables; the body of
  each \<^verbatim>\<open>for neighbor in ...\<close> loop is a function of its own, folded over the
  neighbours in their order. The loops return \<open>None\<close> where \<^verbatim>\<open>_build_path\<close> does not
  return, \<open>Some (Inl err)\<close> where Python raises, and \<open>Some (Inr (path, nodes))\<close>
  otherwise. The cells within \<^verbatim>\<open>rows\<close> by \<^verbatim>\<open>cols\<close> bound every loop.
\<close>

definition in_bounds :: "DronePathfinder \<Rightarrow> cell set" where
  "in_bounds e = {0..<rows e} \<times> {0..<cols e}"

lemma finite_in_bounds: "finite (in_bounds e)"
  by (simp add: in_bounds_def)

lemma is_valid_in_bounds: "is_valid e r c = Inr True \<Longrightarrow> (r, c) \<in> in_bounds e"
  by (auto simp: is_valid_def in_bounds_def split: if_splits)

lemma neighbors_of_in_bounds:
  "neighbors_of e r c ds = Inr ns \<Longrightarrow> set ns \<subseteq> in_bounds e"
proof (induction ds arbitrary: ns)
  case Nil
  then show ?case by simp
next
  case (Cons d ds)
  obtain dr dc where d: "d = (dr, dc)" by (cases d)
  from Cons.prems d obtain ok ms where
    v: "is_valid e (r + dr) (c + dc) = Inr ok" and
    m: "neighbors_of e r c ds = Inr ms" and
    n: "ns = (if ok then (r + dr, c + dc) # ms else ms)"
    by (auto split: sum.splits)
  from Cons.IH [OF m] have "set ms \<subseteq> in_bounds e" .
  with v n show ?case
    by (auto dest: is_valid_in_bounds)
qed

lemma get_neighbors_in_bounds:
  "get_neighbors e pos = Inr ns \<Longrightarrow> set ns \<subseteq> in_bounds e"
  by (auto simp: get_neighbors_def split: prod.splits dest: neighbors_of_in_bounds)

subsection \<open>dfs\<close>

fun dfs_push :: "cell set \<Rightarrow> cell \<Rightarrow> cell \<Rightarrow> cell list \<times> (cell \<rightharpoonup> cell) \<Rightarrow> cell list \<times> (cell \<rightharpoonup> cell)" where
  "dfs_push visited current neighbor (stack, came_from) =
     (if neighbor \<notin> visited then
        (stack @ [neighbor],
         if came_from neighbor = None then came_from(neighbor \<mapsto> current) else came_from)
      else (stack, came_from))"

lemma fst_fold_dfs_push:
  "fst (fold (dfs_push visited current) ns (stack, cf)) = stack @ filter (\<lambda>n. n \<notin> visited) ns"
  by (induction ns arbitrary: stack cf) auto

function dfs_loop ::
  "DronePathfinder \<Rightarrow> cell list \<Rightarrow> cell set \<Rightarrow> (cell \<rightharpoonup> cell) \<Rightarrow> nat \<Rightarrow>
   (error + cell list option \<times> nat) option" where
  "dfs_loop e stack visited came_from nodes =
     (if stack = [] then Some (Inr (None, nodes))
      else
        let current = last stack; stack = butlast stack in
        if current \<in> visited then dfs_loop e stack visited came_from nodes
        else
          let visited = insert current visited; nodes = nodes + 1 in
          if Some current = goal e then
            map_option (\<lambda>path. Inr (Some path, nodes)) (build_path came_from current)
          else
            case get_neighbors e current of
              Inl err \<Rightarrow> Some (Inl err)
            | Inr ns \<Rightarrow>
                (let st = fold (dfs_push visited current) ns (stack, came_from)
                 in dfs_loop e (fst st) visited (snd st) nodes))"
  by pat_completeness auto

text \<open>The cells still to be visited: the measure that ends the loops with a visited set.\<close>

definition pending :: "DronePathfinder \<Rightarrow> cell set \<Rightarrow> cell set \<Rightarrow> nat" where
  "pending e frontier visited = card ((in_bounds e \<union> frontier) - visited)"

lemma pending_mono:
  "finite frontier \<Longrightarrow> frontier' \<subseteq> frontier \<union> in_bounds e \<Longrightarrow> visited \<subseteq> visited' \<Longrightarrow>
   pending e frontier' visited' \<le> pending e frontier visited"
  unfolding pending_def
  by (rule card_mono) (auto simp: finite_in_bounds)

lemma pending_less:
  "finite frontier \<Longrightarrow> frontier' \<subseteq> frontier \<union> in_bounds e \<Longrightarrow> c \<in> frontier \<Longrightarrow> c \<notin> visited \<Longrightarrow>
   pending e frontier' (insert c visited) < pending e frontier visited"
  unfolding pending_def
  by (rule psubset_card_mono) (auto simp: finite_in_bounds)

termination dfs_loop
  apply (relation "measures [\<lambda>(e, stack, visited, cf, nodes). pending e (set stack) visited,
                           \<lambda>(e, stack, visited, cf, nodes). length stack]")
  subgoal by simp
  subgoal for e stack visited came_from nodes current stack'
    using pending_mono [of "set stack" "set (butlast stack)" e visited visited]
    by (auto simp: le_less dest: in_set_butlastD)
  subgoal premises prems for e stack visited came_from nodes current stack' visited' nodes' ns st
  proof -
    have ns: "set ns \<subseteq> in_bounds e"
      using prems(8) by (rule get_neighbors_in_bounds)
    have cur: "current \<in> set stack"
      using prems(1,2) by simp
    have "set (fst st) \<subseteq> set stack \<union> in_bounds e"
      using ns by (auto simp: prems(9) prems(3) fst_fold_dfs_push dest: in_set_butlastD)
    then have "pending e (set (fst st)) (insert current visited) < pending e (set stack) visited"
      using cur prems(4) by (intro pending_less) auto
    then show ?thesis
      by (simp add: prems(5))
  qed
  done


subsection \<open>bfs\<close>

fun bfs_push ::
  "cell \<Rightarrow> cell \<Rightarrow> cell list \<times> cell set \<times> (cell \<rightharpoonup> cell) \<Rightarrow> cell list \<times> cell set \<times> (cell \<rightharpoonup> cell)" where
  "bfs_push current neighbor (queue, visited, came_from) =
     (if neighbor \<notin> visited then
        (queue @ [neighbor], insert neighbor visited, came_from(neighbor \<mapsto> current))
      else (queue, visited, came_from))"

function bfs_loop ::
  "DronePathfinder \<Rightarrow> cell list \<Rightarrow> cell set \<Rightarrow> (cell \<rightharpoonup> cell) \<Rightarrow> nat \<Rightarrow>
   (error + cell list option \<times> nat) option" where
  "bfs_loop e queue visited came_from nodes =
     (if queue = [] then Some (Inr (None, nodes))
      else
        let current = hd queue; queue = tl queue; nodes = nodes + 1 in
        if Some current = goal e then
          map_option (\<lambda>path. Inr (Some path, nodes)) (build_path came_from current)
        else
          case get_neighbors e current of
            Inl err \<Rightarrow> Some (Inl err)
          | Inr ns \<Rightarrow>
              (case fold (bfs_push current) ns (queue, visited, came_from) of
                 (queue, visited, came_from) \<Rightarrow> bfs_loop e queue visited came_from nodes))"
  by pat_completeness auto

lemma fold_bfs_push_measure:
  "set ns \<subseteq> in_bounds e \<Longrightarrow> fold (bfs_push current) ns (queue, visited, cf) = (queue', visited', cf') \<Longrightarrow>
   card (in_bounds e - visited') + length queue' = card (in_bounds e - visited) + length queue"
proof (induction ns arbitrary: queue visited cf)
  case Nil
  then show ?case by simp
next
  case (Cons n ns)
  show ?case
  proof (cases "n \<in> visited")
    case True
    with Cons show ?thesis by simp
  next
    case False
    from Cons.prems have n: "n \<in> in_bounds e" and ns: "set ns \<subseteq> in_bounds e" by auto
    from Cons.prems(2) False have
      "fold (bfs_push current) ns (queue @ [n], insert n visited, cf(n \<mapsto> current)) = (queue', visited', cf')"
      by simp
    from Cons.IH [OF ns this] have
      "card (in_bounds e - visited') + length queue' = card (in_bounds e - insert n visited) + Suc (length queue)"
      by simp
    moreover have "card (in_bounds e - insert n visited) < card (in_bounds e - visited)"
      using n False by (intro psubset_card_mono) (auto simp: finite_in_bounds)
    moreover have "card (in_bounds e - visited) \<le> Suc (card (in_bounds e - insert n visited))"
    proof -
      have "in_bounds e - visited \<subseteq> insert n (in_bounds e - insert n visited)" by auto
      then have "card (in_bounds e - visited) \<le> card (insert n (in_bounds e - insert n visited))"
        by (intro card_mono) (auto simp: finite_in_bounds)
      also have "\<dots> \<le> Suc (card (in_bounds e - insert n visited))"
        by (simp add: card_insert_le_m1 card_insert_if finite_in_bounds)
      finally show ?thesis .
    qed
    ultimately show ?thesis by simp
  qed
qed

termination bfs_loop
  apply (relation "measure (\<lambda>(e, queue, visited, cf, nodes). card (in_bounds e - visited) + length queue)")
  subgoal by simp
  subgoal premises prems for e queue visited came_from nodes current queue' nodes' ns queue'' rest visited'' cf''
  proof -
    have ns: "set ns \<subseteq> in_bounds e"
      using prems(6) by (rule get_neighbors_in_bounds)
    have "fold (bfs_push current) ns (queue', visited, came_from) = (queue'', visited'', cf'')"
      using prems(7,8) by simp
    from fold_bfs_push_measure [OF ns this] prems(1,3) show ?thesis
      by (cases queue) auto
  qed
  done

subsection \<open>ucs\<close>

fun ucs_relax ::
  "int \<Rightarrow> cell \<Rightarrow> cell \<Rightarrow> entry list \<times> (cell \<rightharpoonup> cell) \<times> (cell \<rightharpoonup> int) \<Rightarrow>
   entry list \<times> (cell \<rightharpoonup> cell) \<times> (cell \<rightharpoonup> int)" where
  "ucs_relax curr_cost current neighbor (heap, came_from, cost) =
     (let new_cost = curr_cost + 1 in
      if (case cost neighbor of None \<Rightarrow> True | Some old \<Rightarrow> new_cost < old) then
        (heappush heap (new_cost, neighbor), came_from(neighbor \<mapsto> current),
         cost(neighbor \<mapsto> new_cost))
      else (heap, came_from, cost))"

function ucs_loop ::
  "DronePathfinder \<Rightarrow> entry list \<Rightarrow> cell set \<Rightarrow> (cell \<rightharpoonup> cell) \<Rightarrow> (cell \<rightharpoonup> int) \<Rightarrow> nat \<Rightarrow>
   (error + cell list option \<times> nat) option" where
  "ucs_loop e heap visited came_from cost nodes =
     (if heap = [] then Some (Inr (None, nodes))
      else
        (case heappop heap of ((curr_cost, current), heap) \<Rightarrow>
           if current \<in> visited then ucs_loop e heap visited came_from cost nodes
           else
             let visited = insert current visited; nodes = nodes + 1 in
             if Some current = goal e then
               map_option (\<lambda>path. Inr (Some path, nodes)) (build_path came_from current)
             else
               (case get_neighbors e current of
                  Inl err \<Rightarrow> Some (Inl err)
                | Inr ns \<Rightarrow>
                    (case fold (ucs_relax curr_cost current) ns (heap, came_from, cost) of
                       (heap, came_from, cost) \<Rightarrow>
                         ucs_loop e heap visited came_from cost nodes))))"
  by pat_completeness auto

lemma heappop_set:
  assumes "heap \<noteq> []" "heappop heap = (item, heap')"
  shows "item \<in> set heap" "set heap' \<subseteq> set heap" "length heap' < length heap"
proof -
  from assms have i: "item = Min (set heap)" and h: "heap' = remove1 item heap"
    by (auto simp: heappop_def Let_def)
  from assms(1) i show "item \<in> set heap" by (simp add: Min_in)
  then show "length heap' < length heap"
    using assms(1) h by (simp add: length_remove1)
  show "set heap' \<subseteq> set heap" using h set_remove1_subset [of item heap] by simp
qed

lemma fold_ucs_relax_cells:
  "fold (ucs_relax c current) ns (heap, cf, cost) = (heap', cf', cost') \<Longrightarrow>
   snd ` set heap' \<subseteq> snd ` set heap \<union> set ns"
proof (induction ns arbitrary: heap cf cost)
  case Nil
  then show ?case by auto
next
  case (Cons n ns)
  obtain h1 cf1 cost1 where s: "ucs_relax c current n (heap, cf, cost) = (h1, cf1, cost1)"
    by (cases "ucs_relax c current n (heap, cf, cost)")
  then have "snd ` set h1 \<subseteq> snd ` set heap \<union> {n}"
    by (auto simp: heappush_def Let_def split: if_splits)
  moreover from Cons.prems s have "fold (ucs_relax c current) ns (h1, cf1, cost1) = (heap', cf', cost')"
    by simp
  from Cons.IH [OF this] have "snd ` set heap' \<subseteq> snd ` set h1 \<union> set ns" .
  ultimately show ?case by (simp only: set_simps) blast
qed

termination ucs_loop
  apply (relation "measures [\<lambda>(e, heap, visited, cf, cost, nodes). pending e (snd ` set heap) visited,
                           \<lambda>(e, heap, visited, cf, cost, nodes). length heap]")
  subgoal by simp
  subgoal premises prems for e heap visited came_from cost nodes item heap' curr_cost current
  proof -
    have pop: "heappop heap = (item, heap')" using prems(2) by simp
    have "pending e (snd ` set heap') visited \<le> pending e (snd ` set heap) visited"
      using heappop_set(2) [OF prems(1) pop] by (intro pending_mono) auto
    with heappop_set(3) [OF prems(1) pop] show ?thesis
      by (auto simp: le_less)
  qed
  subgoal premises prems for e heap visited came_from cost nodes item heap' curr_cost current visited' nodes' ns heap'' rest cf'' cost''
  proof -
    have pop: "heappop heap = ((curr_cost, current), heap')" using prems(2,3) by simp
    have ns: "set ns \<subseteq> in_bounds e"
      using prems(8) by (rule get_neighbors_in_bounds)
    have cur: "current \<in> snd ` set heap"
      using heappop_set(1) [OF prems(1) pop] by force
    have "fold (ucs_relax curr_cost current) ns (heap', came_from, cost) = (heap'', cf'', cost'')"
      using prems(9,10) by simp
    from fold_ucs_relax_cells [OF this] heappop_set(2) [OF prems(1) pop] ns
    have "snd ` set heap'' \<subseteq> snd ` set heap \<union> in_bounds e"
      by blast
    then have "pending e (snd ` set heap'') (insert current visited) < pending e (snd ` set heap) visited"
      using cur prems(4) by (intro pending_less) auto
    then show ?thesis
      by (simp add: prems(5))
  qed
  done

subsection \<open>a_star\<close>

fun a_star_relax ::
  "DronePathfinder \<Rightarrow> cell \<Rightarrow> cell \<Rightarrow> entry list \<times> (cell \<rightharpoonup> cell) \<times> (cell \<rightharpoonup> int) \<Rightarrow>
   error + entry list \<times> (cell \<rightharpoonup> cell) \<times> (cell \<rightharpoonup> int)" where
  "a_star_relax e current neighbor (heap, came_from, g_score) =
     (case g_score current of
        None \<Rightarrow> Inl KeyError
      | Some g_current \<Rightarrow>
          (let tentative_g = g_current + 1 in
           if (case g_score neighbor of None \<Rightarrow> True | Some old \<Rightarrow> tentative_g < old) then
             (case goal e of
                None \<Rightarrow> Inl TypeError
              | Some gl \<Rightarrow>
                  (let f_score = tentative_g + manhattan_dist neighbor gl in
                   Inr (heappush heap (f_score, neighbor), came_from(neighbor \<mapsto> current),
                        g_score(neighbor \<mapsto> tentative_g))))
           else Inr (heap, came_from, g_score)))"

fun a_star_expand ::
  "DronePathfinder \<Rightarrow> cell \<Rightarrow> cell list \<Rightarrow> entry list \<times> (cell \<rightharpoonup> cell) \<times> (cell \<rightharpoonup> int) \<Rightarrow>
   error + entry list \<times> (cell \<rightharpoonup> cell) \<times> (cell \<rightharpoonup> int)" where
  "a_star_expand e current [] st = Inr st"
| "a_star_expand e current (neighbor # ns) st =
     (case a_star_relax e current neighbor st of
        Inl err \<Rightarrow> Inl err
      | Inr st' \<Rightarrow> a_star_expand e current ns st')"

function a_star_loop ::
  "DronePathfinder \<Rightarrow> entry list \<Rightarrow> cell set \<Rightarrow> (cell \<rightharpoonup> cell) \<Rightarrow> (cell \<rightharpoonup> int) \<Rightarrow> nat \<Rightarrow>
   (error + cell list option \<times> nat) option" where
  "a_star_loop e heap visited came_from g_score nodes =
     (if heap = [] then Some (Inr (None, nodes))
      else
        (case heappop heap of ((f, current), heap) \<Rightarrow>
           if current \<in> visited then a_star_loop e heap visited came_from g_score nodes
           else
             let visited = insert current visited; nodes = nodes + 1 in
             if Some current = goal e then
               map_option (\<lambda>path. Inr (Some path, nodes)) (build_path came_from current)
             else
               (case get_neighbors e current of
                  Inl err \<Rightarrow> Some (Inl err)
                | Inr ns \<Rightarrow>
                    (case a_star_expand e current ns (heap, came_from, g_score) of
                       Inl err \<Rightarrow> Some (Inl err)
                     | Inr (heap, came_from, g_score) \<Rightarrow>
                         a_star_loop e heap visited came_from g_score nodes))))"
  by pat_completeness auto

lemma a_star_expand_cells:
  "a_star_expand e current ns (heap, cf, g) = Inr (heap', cf', g') \<Longrightarrow>
   snd ` set heap' \<subseteq> snd ` set heap \<union> set ns"
proof (induction ns arbitrary: heap cf g)
  case Nil
  then show ?case by auto
next
  case (Cons n ns)
  from Cons.prems obtain h1 cf1 g1 where
    s: "a_star_relax e current n (heap, cf, g) = Inr (h1, cf1, g1)" and
    r: "a_star_expand e current ns (h1, cf1, g1) = Inr (heap', cf', g')"
    by (auto split: sum.splits)
  from s have "snd ` set h1 \<subseteq> snd ` set heap \<union> {n}"
    by (auto simp: heappush_def Let_def split: if_splits option.splits)
  moreover from Cons.IH [OF r] have "snd ` set heap' \<subseteq> snd ` set h1 \<union> set ns" .
  ultimately show ?case by (simp only: set_simps) blast
qed

termination a_star_loop
  apply (relation "measures [\<lambda>(e, heap, visited, cf, g, nodes). pending e (snd ` set heap) visited,
                           \<lambda>(e, heap, visited, cf, g, nodes). length heap]")
  subgoal by simp
  subgoal premises prems for e heap visited came_from g_score nodes item heap' f current
  proof -
    have pop: "heappop heap = (item, heap')" using prems(2) by simp
    have "pending e (snd ` set heap') visited \<le> pending e (snd ` set heap) visited"
      using heappop_set(2) [OF prems(1) pop] by (intro pending_mono) auto
    with heappop_set(3) [OF prems(1) pop] show ?thesis
      by (auto simp: le_less)
  qed
  subgoal premises prems for e heap visited came_from g_score nodes item heap' f current visited' nodes' ns st heap'' rest cf'' g''
  proof -
    have pop: "heappop heap = ((f, current), heap')" using prems(2,3) by simp
    have ns: "set ns \<subseteq> in_bounds e"
      using prems(8) by (rule get_neighbors_in_bounds)
    have cur: "current \<in> snd ` set heap"
      using heappop_set(1) [OF prems(1) pop] by force
    have "a_star_expand e current ns (heap', came_from, g_score) = Inr (heap'', cf'', g'')"
      using prems(9,10,11) by simp
    from a_star_expand_cells [OF this] heappop_set(2) [OF prems(1) pop] ns
    have "snd ` set heap'' \<subseteq> snd ` set heap \<union> in_bounds e"
      by blast
    then have "pending e (snd ` set heap'') (insert current visited) < pending e (snd ` set heap) visited"
      using cur prems(4) by (intro pending_less) auto
    then show ?thesis
      by (simp add: prems(5))
  qed
  done

subsection \<open>greedy\<close>

fun greedy_push ::
  "DronePathfinder \<Rightarrow> cell set \<Rightarrow> cell \<Rightarrow> cell \<Rightarrow> entry list \<times> (cell \<rightharpoonup> cell) \<Rightarrow>
   error + entry list \<times> (cell \<rightharpoonup> cell)" where
  "greedy_push e visited current neighbor (heap, came_from) =
     (if neighbor \<notin> visited then
        (case goal e of
           None \<Rightarrow> Inl TypeError
         | Some gl \<Rightarrow>
             (let h = manhattan_dist neighbor gl in
              Inr (heappush heap (h, neighbor), came_from(neighbor \<mapsto> current))))
      else Inr (heap, came_from))"

fun greedy_expand ::
  "DronePathfinder \<Rightarrow> cell set \<Rightarrow> cell \<Rightarrow> cell list \<Rightarrow> entry list \<times> (cell \<rightharpoonup> cell) \<Rightarrow>
   error + entry list \<times> (cell \<rightharpoonup> cell)" where
  "greedy_expand e visited current [] st = Inr st"
| "greedy_expand e visited current (neighbor # ns) st =
     (case greedy_push e visited current neighbor st of
        Inl err \<Rightarrow> Inl err
      | Inr st' \<Rightarrow> greedy_expand e visited current ns st')"

function greedy_loop ::
  "DronePathfinder \<Rightarrow> entry list \<Rightarrow> cell set \<Rightarrow> (cell \<rightharpoonup> cell) \<Rightarrow> nat \<Rightarrow>
   (error + cell list option \<times> nat) option" where
  "greedy_loop e heap visited came_from nodes =
     (if heap = [] then Some (Inr (None, nodes))
      else
        (case heappop heap of ((h, current), heap) \<Rightarrow>
           if current \<in> visited then greedy_loop e heap visited came_from nodes
           else
             let visited = insert current visited; nodes = nodes + 1 in
             if Some current = goal e then
               map_option (\<lambda>path. Inr (Some path, nodes)) (build_path came_from current)
             else
               (case get_neighbors e current of
                  Inl err \<Rightarrow> Some (Inl err)
                | Inr ns \<Rightarrow>
                    (case greedy_expand e visited current ns (heap, came_from) of
                       Inl err \<Rightarrow> Some (Inl err)
                     | Inr (heap, came_from) \<Rightarrow>
                         greedy_loop e heap visited came_from nodes))))"
  by pat_completeness auto

lemma greedy_expand_cells:
  "greedy_expand e visited current ns (heap, cf) = Inr (heap', cf') \<Longrightarrow>
   snd ` set heap' \<subseteq> snd ` set heap \<union> set ns"
proof (induction ns arbitrary: heap cf)
  case Nil
  then show ?case by auto
next
  case (Cons n ns)
  from Cons.prems obtain h1 cf1 where
    s: "greedy_push e visited current n (heap, cf) = Inr (h1, cf1)" and
    r: "greedy_expand e visited current ns (h1, cf1) = Inr (heap', cf')"
    by (auto split: sum.splits)
  from s have "snd ` set h1 \<subseteq> snd ` set heap \<union> {n}"
    by (auto simp: heappush_def Let_def split: if_splits option.splits)
  moreover from Cons.IH [OF r] have "snd ` set heap' \<subseteq> snd ` set h1 \<union> set ns" .
  ultimately show ?case by (simp only: set_simps) blast
qed

termination greedy_loop
  apply (relation "measures [\<lambda>(e, heap, visited, cf, nodes). pending e (snd ` set heap) visited,
                           \<lambda>(e, heap, visited, cf, nodes). length heap]")
  subgoal by simp
  subgoal premises prems for e heap visited came_from nodes item heap' h current
  proof -
    have pop: "heappop heap = (item, heap')" using prems(2) by simp
    have "pending e (snd ` set heap') visited \<le> pending e (snd ` set heap) visited"
      using heappop_set(2) [OF prems(1) pop] by (intro pending_mono) auto
    with heappop_set(3) [OF prems(1) pop] show ?thesis
      by (auto simp: le_less)
  qed
  subgoal premises prems for e heap visited came_from nodes item heap' h current visited' nodes' ns st heap'' cf''
  proof -
    have pop: "heappop heap = ((h, current), heap')" using prems(2,3) by simp
    have ns: "set ns \<subseteq> in_bounds e"
      using prems(8) by (rule get_neighbors_in_bounds)
    have cur: "current \<in> snd ` set heap"
      using heappop_set(1) [OF prems(1) pop] by force
    have "greedy_expand e visited' current ns (heap', came_from) = Inr (heap'', cf'')"
      using prems(9,10) by simp
    from greedy_expand_cells [OF this] heappop_set(2) [OF prems(1) pop] ns
    have "snd ` set heap'' \<subseteq> snd ` set heap \<union> in_bounds e"
      by blast
    then have "pending e (snd ` set heap'') (insert current visited) < pending e (snd ` set heap) visited"
      using cur prems(4) by (intro pending_less) auto
    then show ?thesis
      by (simp add: prems(5))
  qed
  done

subsection \<open>The methods\<close>

text \<open>
  A position is a tuple or \<^verbatim>\<open>None\<close> (what \<^verbatim>\<open>_find_pos\<close> returns when the symbol is
  missing). With \<^verbatim>\<open>self.start\<close> \<^verbatim>\<open>None\<close>, the first four methods pop \<^verbatim>\<open>None\<close>,
  count it, and return the path \<^verbatim>\<open>[None]\<close> when the goal is \<^verbatim>\<open>None\<close> too;
  otherwise \<^verbatim>\<open>_get_neighbors(None)\<close> raises TypeError. \<^verbatim>\<open>greedy\<close> calls
  \<^verbatim>\<open>_manhattan_dist\<close> on start and goal first, a TypeError when either is \<^verbatim>\<open>None\<close>.
\<close>

type_synonym pos = "cell option"

type_synonym result = "(error + pos list option \<times> nat) option"

definition returned :: "(error + cell list option \<times> nat) option \<Rightarrow> result" where
  "returned r = map_option (map_sum id (\<lambda>(path, nodes). (map_option (map Some) path, nodes))) r"

definition none_start :: "DronePathfinder \<Rightarrow> result" where
  "none_start e = (if goal e = None then Some (Inr (Some [None], 1)) else Some (Inl TypeError))"

definition dfs :: "DronePathfinder \<Rightarrow> result" where
  "dfs e =
     (case start e of
        None \<Rightarrow> none_start e
      | Some s \<Rightarrow> returned (dfs_loop e [s] {} Map.empty 0))"

definition bfs :: "DronePathfinder \<Rightarrow> result" where
  "bfs e =
     (case start e of
        None \<Rightarrow> none_start e
      | Some s \<Rightarrow> returned (bfs_loop e [s] {s} Map.empty 0))"

definition ucs :: "DronePathfinder \<Rightarrow> result" where
  "ucs e =
     (case start e of
        None \<Rightarrow> none_start e
      | Some s \<Rightarrow> returned (ucs_loop e [(0, s)] {} Map.empty [s \<mapsto> 0] 0))"

definition a_star :: "DronePathfinder \<Rightarrow> result" where
  "a_star e =
     (case start e of
        None \<Rightarrow> none_start e
      | Some s \<Rightarrow> returned (a_star_loop e [(0, s)] {} Map.empty [s \<mapsto> 0] 0))"

definition greedy :: "DronePathfinder \<Rightarrow> result" where
  "greedy e =
     (case (start e, goal e) of
        (Some s, Some gl) \<Rightarrow>
          returned (greedy_loop e [(manhattan_dist s gl, s)] {} Map.empty 0)
      | _ \<Rightarrow> Some (Inl TypeError))"

text \<open>
  \<^verbatim>\<open>main\<close> constructs the engine from the grid and calls the chosen method on it.
\<close>

definition run :: "(DronePathfinder \<Rightarrow> result) \<Rightarrow> grid_t \<Rightarrow> result" where
  "run method gr = (case init gr of Inl err \<Rightarrow> Some (Inl err) | Inr e \<Rightarrow> method e)"

section \<open>The order of the validator's checks\<close>

text \<open>
  What the validator's loops compute, without the counters: the number of cells equal to
  a symbol, and the first violation met when the rows are read in order, each row's
  length before its cells.
\<close>

definition count_sym :: "grid_t \<Rightarrow> string \<Rightarrow> nat" where
  "count_sym gr symbol = length (filter (\<lambda>cell. cell = symbol) (concat gr))"

fun first_violation :: "nat \<Rightarrow> grid_t \<Rightarrow> string option" where
  "first_violation n [] = None"
| "first_violation n (row # rest) =
     (if length row \<noteq> n then Some ''Unequal row lengths''
      else case find (\<lambda>cell. \<not> str_in cell ''X.SG'') row of
        Some cell \<Rightarrow> Some (''Invalid symbol: '' @ cell)
      | None \<Rightarrow> first_violation n rest)"

text \<open>The spec's words: all rows share the first row's length; the four-symbol alphabet.\<close>

definition rows_equal :: "grid_t \<Rightarrow> bool" where
  "rows_equal gr = list_all (\<lambda>row. length row = length (hd gr)) gr"

definition in_alphabet :: "string \<Rightarrow> bool" where
  "in_alphabet cell = (cell = ''X'' \<or> cell = ''.'' \<or> cell = ''S'' \<or> cell = ''G'')"

lemma scan_row_eq:
  "scan_row row s g =
     (case find (\<lambda>cell. \<not> str_in cell ''X.SG'') row of
        Some cell \<Rightarrow> Inl (''Invalid symbol: '' @ cell)
      | None \<Rightarrow> Inr (s + length (filter (\<lambda>cell. cell = ''S'') row),
                     g + length (filter (\<lambda>cell. cell = ''G'') row)))"
  by (induction row arbitrary: s g) (auto simp del: str_in.simps split: option.splits)

lemma scan_rows_eq:
  "scan_rows gr n s g =
     (case first_violation n gr of
        Some msg \<Rightarrow> Inl msg
      | None \<Rightarrow> Inr (s + count_sym gr ''S'', g + count_sym gr ''G''))"
  by (induction gr arbitrary: s g)
     (auto simp: scan_row_eq count_sym_def simp del: str_in.simps split: option.splits)

text \<open>
  Claim C7, as amended. \<^verbatim>\<open>validate_grid\<close> checks, in this order: the grid is non-empty
  and its first row has a column; then, row by row, that the row has the first row's
  length and after that that each of its cells passes the test \<^verbatim>\<open>cell in 'X.SG'\<close>;
  then that exactly one cell is \<^verbatim>\<open>'S'\<close>; then that exactly one cell is \<^verbatim>\<open>'G'\<close>. It
  returns the first violation met in that order. The length check and the symbol check
  are interleaved per row: an invalid symbol in a row above the first row of another
  length is reported, not the row length.
\<close>

theorem validate_grid_order:
  "validate_grid gr =
     (if gr = [] \<or> hd gr = [] then (False, ''Empty grid'')
      else case first_violation (length (hd gr)) gr of
        Some msg \<Rightarrow> (False, msg)
      | None \<Rightarrow>
          if count_sym gr ''S'' \<noteq> 1 then (False, ''Need exactly one S'')
          else if count_sym gr ''G'' \<noteq> 1 then (False, ''Need exactly one G'')
          else (True, ''Valid''))"
  by (simp add: validate_grid_def scan_rows_eq split: option.splits)

text \<open>
  Claim C7 as stated fails: the only violations of this grid are a row of another length
  (the second) and a symbol outside the alphabet (in the first); one \<^verbatim>\<open>'S'\<close>, one
  \<^verbatim>\<open>'G'\<close>. The reason returned is the invalid symbol, not the row lengths.
\<close>

theorem validate_grid_order_counterexample:
  "\<not> rows_equal [[''S'', ''?''], [''G'']] \<and>
   \<not> list_all in_alphabet (concat [[''S'', ''?''], [''G'']]) \<and>
   count_sym [[''S'', ''?''], [''G'']] ''S'' = 1 \<and>
   count_sym [[''S'', ''?''], [''G'']] ''G'' = 1 \<and>
   validate_grid [[''S'', ''?''], [''G'']] = (False, ''Invalid symbol: ?'')"
  by (simp add: rows_equal_def in_alphabet_def count_sym_def validate_grid_def)

section \<open>Constructing the engine\<close>

text \<open>
  The first cell in row-major order that holds a symbol, \<open>None\<close> when no cell does:
  what \<^verbatim>\<open>_find_pos\<close> is to return on a rectangular grid.
\<close>

definition first_pos :: "grid_t \<Rightarrow> string \<Rightarrow> cell option" where
  "first_pos gr symbol =
     map_option (\<lambda>(i, j). (int i, int j))
       (find (\<lambda>(i, j). gr ! i ! j = symbol)
          (List.product [0..<length gr] [0..<length (hd gr)]))"

lemma find_col_eq:
  "\<forall>j \<in> set js. j < length row \<Longrightarrow>
   find_col row symbol js = Inr (find (\<lambda>j. row ! j = symbol) js)"
  by (induction js) auto

lemma find_append: "find P (xs @ ys) = (case find P xs of None \<Rightarrow> find P ys | Some x \<Rightarrow> Some x)"
  by (induction xs) auto

lemma find_product_Cons:
  "find (\<lambda>(i, j). P i j) (List.product (i # is) js) =
     (case find (P i) js of
        Some j \<Rightarrow> Some (i, j)
      | None \<Rightarrow> find (\<lambda>(i, j). P i j) (List.product is js))"
proof -
  have "find (\<lambda>(i, j). P i j) (map (Pair i) js) = map_option (Pair i) (find (P i) js)"
    by (induction js) auto
  then show ?thesis
    by (simp add: find_append split: option.splits)
qed

lemma find_row_eq:
  "\<forall>i \<in> set is. i < length gr \<and> (\<forall>j \<in> set js. j < length (gr ! i)) \<Longrightarrow>
   find_row gr symbol is js =
     Inr (map_option (\<lambda>(i, j). (int i, int j))
            (find (\<lambda>(i, j). gr ! i ! j = symbol) (List.product is js)))"
proof (induction "is")
  case Nil
  then show ?case by simp
next
  case (Cons i "is")
  then have c: "find_col (gr ! i) symbol js = Inr (find (\<lambda>j. gr ! i ! j = symbol) js)"
    by (intro find_col_eq) auto
  from Cons have "find_row gr symbol is js =
     Inr (map_option (\<lambda>(i, j). (int i, int j))
            (find (\<lambda>(i, j). gr ! i ! j = symbol) (List.product is js)))"
    by auto
  with Cons.prems c show ?case
    by (simp add: find_product_Cons [of "\<lambda>i j. gr ! i ! j = symbol"] del: product.simps
             split: option.splits)
qed

lemma find_pos_eq:
  "rows_equal gr \<Longrightarrow>
   find_pos gr (int (length gr)) (int (length (hd gr))) symbol = Inr (first_pos gr symbol)"
  unfolding find_pos_def first_pos_def
  by (simp, rule find_row_eq) (auto simp: rows_equal_def list_all_length)

lemma init_eq:
  "gr \<noteq> [] \<Longrightarrow> rows_equal gr \<Longrightarrow>
   init gr = Inr \<lparr>grid = gr, rows = int (length gr), cols = int (length (hd gr)),
                  start = first_pos gr ''S'', goal = first_pos gr ''G''\<rparr>"
  using find_pos_eq [of gr]
  by (cases gr) (auto simp: init_def Let_def)

lemma first_violation_None:
  "first_violation n gr = None \<Longrightarrow> list_all (\<lambda>row. length row = n) gr"
  by (induction gr) (auto split: if_splits option.splits)

lemma validate_grid_eq:
  "validate_grid gr =
     (if gr = [] \<or> hd gr = [] then (False, ''Empty grid'')
      else case first_violation (length (hd gr)) gr of
        Some msg \<Rightarrow> (False, msg)
      | None \<Rightarrow>
          if count_sym gr ''S'' \<noteq> 1 then (False, ''Need exactly one S'')
          else if count_sym gr ''G'' \<noteq> 1 then (False, ''Need exactly one G'')
          else (True, ''Valid''))"
  by (simp add: validate_grid_def scan_rows_eq split: option.splits)

lemma validated:
  assumes "validate_grid gr = (True, msg)"
  shows "gr \<noteq> []" "hd gr \<noteq> []" "rows_equal gr" "count_sym gr ''S'' = 1" "count_sym gr ''G'' = 1"
proof -
  from assms show ne: "gr \<noteq> []" and "hd gr \<noteq> []"
    by (auto simp: validate_grid_eq split: if_splits)
  with assms have fv: "first_violation (length (hd gr)) gr = None"
    by (auto simp: validate_grid_eq split: if_splits option.splits)
  then show "rows_equal gr"
    unfolding rows_equal_def by (rule first_violation_None)
  from assms fv show "count_sym gr ''S'' = 1" "count_sym gr ''G'' = 1"
    by (auto simp: validate_grid_eq split: if_splits)
qed

lemma find_SomeD: "find P xs = Some x \<Longrightarrow> x \<in> set xs \<and> P x"
  by (induction xs) (auto split: if_splits)

lemma first_pos_Some:
  assumes "rows_equal gr" "0 < count_sym gr symbol"
  shows "\<exists>i j. first_pos gr symbol = Some (int i, int j) \<and> i < length gr \<and>
           j < length (hd gr) \<and> gr ! i ! j = symbol"
proof -
  from assms(2) have "symbol \<in> set (concat gr)"
    by (auto simp: count_sym_def filter_empty_conv)
  then obtain row where row: "row \<in> set gr" "symbol \<in> set row" by auto
  then obtain i j where i: "i < length gr" "gr ! i = row" and j: "j < length row" "row ! j = symbol"
    by (auto simp: in_set_conv_nth)
  from assms(1) i have len: "length row = length (hd gr)"
    by (auto simp: rows_equal_def list_all_length)
  have "(i, j) \<in> set (List.product [0..<length gr] [0..<length (hd gr)])"
    using i j len by simp
  moreover have "(\<lambda>(i, j). gr ! i ! j = symbol) (i, j)"
    using i j by simp
  ultimately have "find (\<lambda>(i, j). gr ! i ! j = symbol)
      (List.product [0..<length gr] [0..<length (hd gr)]) \<noteq> None"
    unfolding find_None_iff by blast
  then obtain p where p: "find (\<lambda>(i, j). gr ! i ! j = symbol)
      (List.product [0..<length gr] [0..<length (hd gr)]) = Some p"
    by auto
  obtain i' j' where ij: "p = (i', j')" by (cases p)
  from p have "p \<in> set (List.product [0..<length gr] [0..<length (hd gr)])"
    and "(\<lambda>(i, j). gr ! i ! j = symbol) p"
    by (auto dest: find_SomeD)
  with ij p show ?thesis
    by (auto simp: first_pos_def)
qed

text \<open>
  Claim C2, as amended. Constructing the engine raises no structural error: the code has
  none. On every non-empty grid whose rows all have the first row's length, and so on
  every grid that passes \<^verbatim>\<open>validate_grid\<close>, \<^verbatim>\<open>__init__\<close> raises nothing; start and
  goal are the first cells in row-major order that hold \<^verbatim>\<open>'S'\<close> and \<^verbatim>\<open>'G'\<close>, a
  missing symbol gives \<^verbatim>\<open>None\<close>, and on a grid that passes \<^verbatim>\<open>validate_grid\<close> both
  are present.
\<close>

theorem init_never_raises:
  "gr \<noteq> [] \<Longrightarrow> rows_equal gr \<Longrightarrow>
   init gr = Inr \<lparr>grid = gr, rows = int (length gr), cols = int (length (hd gr)),
                  start = first_pos gr ''S'', goal = first_pos gr ''G''\<rparr> \<and>
   (validate_grid gr = (True, ''Valid'') \<longrightarrow> first_pos gr ''S'' \<noteq> None \<and> first_pos gr ''G'' \<noteq> None)"
  using init_eq [of gr] validated(3,4,5) [of gr "''Valid''"]
    first_pos_Some [of gr "''S''"] first_pos_Some [of gr "''G''"]
  by auto

text \<open>
  Witness: a grid with no \<^verbatim>\<open>'S'\<close>, a grid with two, and a valid grid.
\<close>

theorem init_never_raises_witness:
  "init [[''G'']] = Inr \<lparr>grid = [[''G'']], rows = 1, cols = 1, start = None, goal = Some (0, 0)\<rparr> \<and>
   init [[''S'', ''S'', ''G'']] =
     Inr \<lparr>grid = [[''S'', ''S'', ''G'']], rows = 1, cols = 3, start = Some (0, 0), goal = Some (0, 2)\<rparr> \<and>
   validate_grid [[''S'', ''.'', ''G'']] = (True, ''Valid'') \<and>
   init [[''S'', ''.'', ''G'']] =
     Inr \<lparr>grid = [[''S'', ''.'', ''G'']], rows = 1, cols = 3, start = Some (0, 0), goal = Some (0, 2)\<rparr>"
  using init_never_raises [of "[[''G'']]"] init_never_raises [of "[[''S'', ''S'', ''G'']]"]
    init_never_raises [of "[[''S'', ''.'', ''G'']]"]
  by (simp add: rows_equal_def first_pos_def validate_grid_def)

text \<open>
  Claim C2 as stated fails: with no \<^verbatim>\<open>'S'\<close> in the grid, and with two, construction
  returns an engine and raises nothing.
\<close>

theorem init_counterexample:
  "count_sym [[''G'']] ''S'' = 0 \<and>
   init [[''G'']] = Inr \<lparr>grid = [[''G'']], rows = 1, cols = 1, start = None, goal = Some (0, 0)\<rparr> \<and>
   count_sym [[''S'', ''S'', ''G'']] ''S'' = 2 \<and>
   init [[''S'', ''S'', ''G'']] =
     Inr \<lparr>grid = [[''S'', ''S'', ''G'']], rows = 1, cols = 3, start = Some (0, 0), goal = Some (0, 2)\<rparr>"
  by code_simp

section \<open>Scenario 1: breadth-first search on the first preset\<close>

text \<open>The first preset of \<^verbatim>\<open>get_grid\<close>.\<close>

definition scenario1 :: grid_t where
  "scenario1 =
     [[''S'', ''.'', ''X'', ''.'', ''G''],
      [''.'', ''X'', ''.'', ''X'', ''.''],
      [''.'', ''.'', ''.'', ''.'', ''.'']]"

text \<open>
  Claim C6, as amended. On this grid, which passes \<^verbatim>\<open>validate_grid\<close>, \<^verbatim>\<open>bfs\<close>
  returns a path of 9 cells, start through goal, with 11 nodes visited (at most 15).
  No path is shorter: the cell \<open>(0, 1)\<close> is a dead end and column 2 is open in the last
  row only.
\<close>

theorem bfs_scenario1:
  "validate_grid scenario1 = (True, ''Valid'') \<and>
   run bfs scenario1 =
     Some (Inr (Some [Some (0, 0), Some (1, 0), Some (2, 0), Some (2, 1), Some (2, 2),
                      Some (2, 3), Some (2, 4), Some (1, 4), Some (0, 4)], 11))"
  by code_simp

text \<open>Claim C6 as stated fails: the path \<^verbatim>\<open>bfs\<close> returns does not have 7 cells.\<close>

theorem bfs_scenario1_counterexample:
  "\<not> (\<exists>path nodes. run bfs scenario1 = Some (Inr (Some path, nodes)) \<and>
         length path = 7 \<and> nodes \<le> 15)"
proof -
  have "run bfs scenario1 =
     Some (Inr (Some [Some (0, 0), Some (1, 0), Some (2, 0), Some (2, 1), Some (2, 2),
                      Some (2, 3), Some (2, 4), Some (1, 4), Some (0, 4)], 11))"
    by code_simp
  then show ?thesis by auto
qed

section \<open>Ties in the priority queue of A*\<close>

text \<open>A grid on which two neighbours of the start get the same key.\<close>

definition tie_grid :: grid_t where
  "tie_grid =
     [[''.'', ''.'', ''.''],
      [''.'', ''S'', ''.''],
      [''G'', ''.'', ''.'']]"

text \<open>The least entry of the heap, spelled out on the tuples, is the one popped.\<close>

lemma heappop_least_entry:
  assumes "(f, r, c) \<in> set heap"
    and "\<forall>(f', r', c') \<in> set heap. f < f' \<or> (f = f' \<and> (r < r' \<or> (r = r' \<and> c \<le> c')))"
  shows "heappop heap = ((f, r, c), remove1 (f, r, c) heap)"
proof -
  have "Min (set heap) = (f, r, c)"
  proof (rule Min_eqI)
    show "finite (set heap)" by simp
    show "(f, r, c) \<in> set heap" by fact
    fix y assume "y \<in> set heap"
    with assms(2) show "(f, r, c) \<le> y"
      by (cases y) (auto simp: less_eq_prod_def)
  qed
  then show ?thesis by (simp add: heappop_def Let_def)
qed

text \<open>
  Claim C10, as amended. In \<^verbatim>\<open>a_star\<close> the entry that an iteration of the loop pops and
  processes is the least of the heap under Python's comparison of the tuples
  \<open>(f, (row, col))\<close>: the least \<open>f\<close>, and among entries of equal \<open>f\<close> the one with the
  least cell (least row, then least column), wherever it stands in the order of the
  pushes. The iteration skips it when visited, returns its path when it is the goal, and
  expands it otherwise.
\<close>

theorem a_star_loop_pops_least:
  assumes "(f, r, c) \<in> set heap"
    and "\<forall>(f', r', c') \<in> set heap. f < f' \<or> (f = f' \<and> (r < r' \<or> (r = r' \<and> c \<le> c')))"
  shows "a_star_loop e heap visited came_from g_score nodes =
     (if (r, c) \<in> visited then
        a_star_loop e (remove1 (f, r, c) heap) visited came_from g_score nodes
      else if Some (r, c) = goal e then
        map_option (\<lambda>path. Inr (Some path, nodes + 1)) (build_path came_from (r, c))
      else
        (case get_neighbors e (r, c) of
           Inl err \<Rightarrow> Some (Inl err)
         | Inr ns \<Rightarrow>
             (case a_star_expand e (r, c) ns (remove1 (f, r, c) heap, came_from, g_score) of
                Inl err \<Rightarrow> Some (Inl err)
              | Inr (heap', came_from', g_score') \<Rightarrow>
                  a_star_loop e heap' (insert (r, c) visited) came_from' g_score' (nodes + 1))))"
proof -
  from assms(1) have ne: "heap \<noteq> []" by auto
  show ?thesis
    by (subst a_star_loop.simps)
       (simp add: ne heappop_least_entry [OF assms] Let_def split: sum.splits)
qed

text \<open>
  Witness: the third iteration on \<open>tie_grid\<close>. The entries \<open>(2, (2, 1))\<close>, pushed
  second, and \<open>(2, (2, 0))\<close>, pushed last, tie; the loop pops \<open>(2, (2, 0))\<close>, the goal.
\<close>

theorem a_star_loop_pops_least_witness:
  "a_star_loop
     \<lparr>grid = tie_grid, rows = 3, cols = 3, start = Some (1, 1), goal = Some (2, 0)\<rparr>
     [(4, 0, 1), (2, 2, 1), (4, 1, 2), (4, 0, 0), (2, 2, 0)]
     {(1, 1), (1, 0)}
     [(0, 1) \<mapsto> (1, 1), (2, 1) \<mapsto> (1, 1), (1, 0) \<mapsto> (1, 1), (1, 2) \<mapsto> (1, 1),
      (0, 0) \<mapsto> (1, 0), (2, 0) \<mapsto> (1, 0)]
     [(1, 1) \<mapsto> 0, (0, 1) \<mapsto> 1, (2, 1) \<mapsto> 1, (1, 0) \<mapsto> 1, (1, 2) \<mapsto> 1,
      (0, 0) \<mapsto> 2, (2, 0) \<mapsto> 2]
     2 =
   Some (Inr (Some [(1, 1), (1, 0), (2, 0)], 3))"
proof -
  have path: "build_path
     [(0, 1) \<mapsto> (1, 1), (2, 1) \<mapsto> (1, 1), (1, 0) \<mapsto> (1, 1), (1, 2) \<mapsto> (1, 1),
      (0, 0) \<mapsto> (1, 0), (2, 0) \<mapsto> (1::int, 0::int)] (2, 0) =
     Some [(1, 1), (1, 0), (2, 0)]"
    by code_simp
  show ?thesis
    using a_star_loop_pops_least
      [of 2 2 0 "[(4, 0, 1), (2, 2, 1), (4, 1, 2), (4, 0, 0), (2, 2, 0)]"
          "\<lparr>grid = tie_grid, rows = 3, cols = 3, start = Some (1, 1), goal = Some (2, 0)\<rparr>"
          "{(1, 1), (1, 0)}"
          "[(0, 1) \<mapsto> (1, 1), (2, 1) \<mapsto> (1, 1), (1, 0) \<mapsto> (1, 1), (1, 2) \<mapsto> (1, 1),
            (0, 0) \<mapsto> (1, 0), (2, 0) \<mapsto> (1, 0)]"
          "[(1, 1) \<mapsto> 0, (0, 1) \<mapsto> 1, (2, 1) \<mapsto> 1, (1, 0) \<mapsto> 1, (1, 2) \<mapsto> 1,
            (0, 0) \<mapsto> 2, (2, 0) \<mapsto> 2]" 2]
    by (simp add: path)
qed

text \<open>
  Claim C10 as stated fails. On \<open>tie_grid\<close> the first iteration of \<^verbatim>\<open>a_star\<close> pushes
  the neighbours of the start north, south, west, east: the heap holds, in the order of
  the pushes, \<open>(4, (0, 1))\<close>, \<open>(2, (2, 1))\<close>, \<open>(2, (1, 0))\<close>, \<open>(4, (1, 2))\<close>. The two
  entries of key 2 tie; the one pushed later, \<open>(2, (1, 0))\<close>, is popped first, and the
  returned path goes through \<open>(1, 0)\<close>.
\<close>

theorem a_star_tie_counterexample:
  "init tie_grid =
     Inr \<lparr>grid = tie_grid, rows = 3, cols = 3, start = Some (1, 1), goal = Some (2, 0)\<rparr> \<and>
   get_neighbors \<lparr>grid = tie_grid, rows = 3, cols = 3, start = Some (1, 1), goal = Some (2, 0)\<rparr> (1, 1) =
     Inr [(0, 1), (2, 1), (1, 0), (1, 2)] \<and>
   map_sum id fst
     (a_star_expand \<lparr>grid = tie_grid, rows = 3, cols = 3, start = Some (1, 1), goal = Some (2, 0)\<rparr>
        (1, 1) [(0, 1), (2, 1), (1, 0), (1, 2)] ([], Map.empty, [(1, 1) \<mapsto> 0])) =
     Inr [(4, 0, 1), (2, 2, 1), (2, 1, 0), (4, 1, 2)] \<and>
   fst (heappop [(4, 0, 1), (2, 2, 1), (2, 1, 0), (4, 1, 2)]) = (2, 1, 0) \<and>
   run a_star tie_grid = Some (Inr (Some [Some (1, 1), Some (1, 0), Some (2, 0)], 3))"
  by code_simp

section \<open>The predecessor map of greedy best-first search\<close>

text \<open>A grid on which \<^verbatim>\<open>greedy\<close> pushes a cell twice before visiting it.\<close>

definition detour_grid :: grid_t where
  "detour_grid =
     [[''.'', ''.'', ''X'', ''G''],
      [''S'', ''.'', ''.'', ''.'']]"

text \<open>What the \<^verbatim>\<open>for\<close> loop of \<^verbatim>\<open>greedy\<close> does to the heap and to \<^verbatim>\<open>came_from\<close>.\<close>

lemma greedy_expand_result:
  "goal e = Some gl \<Longrightarrow>
   greedy_expand e visited current ns (heap, cf) =
     Inr (heap @ map (\<lambda>n. (manhattan_dist n gl, n)) (filter (\<lambda>n. n \<notin> visited) ns),
          \<lambda>n. if n \<in> set ns \<and> n \<notin> visited then Some current else cf n)"
  by (induction ns arbitrary: heap cf) (auto simp: heappush_def Let_def fun_eq_iff)

text \<open>
  Claim C5, as amended. In \<^verbatim>\<open>greedy\<close>, an iteration of the loop that expands a cell
  sets \<^verbatim>\<open>came_from[neighbor]\<close> to that cell for every neighbour not yet visited,
  overwriting the entry an earlier push recorded; the entries of the visited cells, and
  of every other cell, are left as they were, so the entry of a cell is no longer
  changed once the cell is visited. An iteration that pops a visited cell changes
  nothing.
\<close>

theorem greedy_loop_came_from:
  assumes "heap \<noteq> []" "heappop heap = ((h, current), heap')" "goal e = Some gl"
    and "get_neighbors e current = Inr ns"
  shows "greedy_loop e heap visited came_from nodes =
     (if current \<in> visited then greedy_loop e heap' visited came_from nodes
      else if current = gl then
        map_option (\<lambda>path. Inr (Some path, nodes + 1)) (build_path came_from current)
      else
        greedy_loop e
          (heap' @ map (\<lambda>n. (manhattan_dist n gl, n))
                     (filter (\<lambda>n. n \<notin> insert current visited) ns))
          (insert current visited)
          (\<lambda>n. if n \<in> set ns \<and> n \<notin> insert current visited then Some current
                else came_from n)
          (nodes + 1))"
  by (subst greedy_loop.simps)
     (simp add: assms greedy_expand_result [OF assms(3)] Let_def)


text \<open>
  Witness: the third iteration on \<open>detour_grid\<close>, at \<open>(0, 1)\<close>. The entry of \<open>(1, 1)\<close>,
  set to \<open>(1, 0)\<close> by the first iteration, becomes \<open>(0, 1)\<close>; the entry of the visited
  neighbour \<open>(0, 0)\<close> stays.
\<close>

theorem greedy_loop_came_from_witness:
  "greedy_loop
     \<lparr>grid = detour_grid, rows = 2, cols = 4, start = Some (1, 0), goal = Some (0, 3)\<rparr>
     [(3, 1, 1), (2, 0, 1)]
     {(1, 0), (0, 0)}
     [(0, 0) \<mapsto> (1, 0), (1, 1) \<mapsto> (1, 0), (0, 1) \<mapsto> (0, 0)]
     2 =
   greedy_loop
     \<lparr>grid = detour_grid, rows = 2, cols = 4, start = Some (1, 0), goal = Some (0, 3)\<rparr>
     [(3, 1, 1), (3, 1, 1)]
     {(0, 1), (1, 0), (0, 0)}
     (\<lambda>n. if n \<in> set [(1, 1), (0, 0)] \<and> n \<notin> {(0, 1), (1, 0), (0, 0)} then Some (0, 1)
           else [(0, 0) \<mapsto> (1, 0), (1, 1) \<mapsto> (1, 0), (0, 1) \<mapsto> (0, 0)] n)
     3"
proof -
  have pop: "heappop [(3, 1, 1), (2, 0, 1)] = ((2::int, 0::int, 1::int), [(3, 1, 1)])"
    by code_simp
  have ns: "get_neighbors
      \<lparr>grid = detour_grid, rows = 2, cols = 4, start = Some (1, 0), goal = Some (0, 3)\<rparr> (0, 1) =
      Inr [(1, 1), (0, 0)]"
    by code_simp
  show ?thesis
    using greedy_loop_came_from [OF _ pop _ ns, of "(0, 3)" "{(1, 0), (0, 0)}"
        "[(0, 0) \<mapsto> (1, 0), (1, 1) \<mapsto> (1, 0), (0, 1) \<mapsto> (0, 0)]" 2]
    by (simp add: manhattan_dist_def)
qed


text \<open>
  Claim C5 as stated fails. On \<open>detour_grid\<close> the first iteration of \<^verbatim>\<open>greedy\<close>
  pushes \<open>(1, 1)\<close> from the start \<open>(1, 0)\<close> and records \<open>(1, 0)\<close> as its predecessor;
  the third iteration, at \<open>(0, 1)\<close>, pushes \<open>(1, 1)\<close> again, not yet visited, and
  reassigns its predecessor to \<open>(0, 1)\<close>. The returned path reaches \<open>(1, 1)\<close> from
  \<open>(0, 1)\<close>.
\<close>

theorem greedy_came_from_counterexample:
  "get_neighbors \<lparr>grid = detour_grid, rows = 2, cols = 4, start = Some (1, 0), goal = Some (0, 3)\<rparr> (1, 0) =
     Inr [(0, 0), (1, 1)] \<and>
   map_sum id (\<lambda>(heap, cf). cf (1, 1))
     (greedy_expand \<lparr>grid = detour_grid, rows = 2, cols = 4, start = Some (1, 0), goal = Some (0, 3)\<rparr>
        {(1, 0)} (1, 0) [(0, 0), (1, 1)] ([], Map.empty)) = Inr (Some (1, 0)) \<and>
   map_sum id (\<lambda>(heap, cf). cf (1, 1))
     (greedy_expand \<lparr>grid = detour_grid, rows = 2, cols = 4, start = Some (1, 0), goal = Some (0, 3)\<rparr>
        {(1, 0), (0, 0), (0, 1)} (0, 1) [(1, 1), (0, 0)] ([(3, 1, 1)], [(0, 0) \<mapsto> (1, 0), (1, 1) \<mapsto> (1, 0), (0, 1) \<mapsto> (0, 0)])) =
     Inr (Some (0, 1)) \<and>
   init detour_grid =
     Inr \<lparr>grid = detour_grid, rows = 2, cols = 4, start = Some (1, 0), goal = Some (0, 3)\<rparr> \<and>
   run greedy detour_grid =
     Some (Inr (Some [Some (1, 0), Some (0, 0), Some (0, 1), Some (1, 1), Some (1, 2),
                      Some (1, 3), Some (0, 3)], 7))"
  by code_simp

end
